theory Spec2Isabelle
  imports Main "HOL-Library.AList" "HOL-Library.Multiset" "HOL-Library.Word"
begin

section \<open>The SSH transport session (plumbing/transport/ssh/common.go)\<close>

subsection \<open>Data\<close>

text \<open>
  The error values of the package. \<open>ErrInvalidAuthMethod\<close> is the one of package
  \<open>transport\<close>. The errors of the collaborators (\<open>NewSSHAgentAuth\<close>, \<open>ssh.Dial\<close>,
  \<open>NewSession\<close>, \<open>StdinPipe\<close>, \<open>StdoutPipe\<close>) are \<open>External\<close> with their message;
  \<open>openSSHSession\<close> wraps them with \<open>fmt.Errorf\<close> into the three \<open>Cannot...\<close> errors.
  \<open>NilDereference\<close> is no error value: it is the run-time panic of a method call on a
  nil interface.
\<close>

datatype ssh_error =
    ErrAdvertistedReferencesAlreadyCalled
  | ErrAlreadyConnected
  | ErrAuthRequired
  | ErrNotConnected
  | ErrUploadPackAnswerFormat
  | ErrUnsupportedVCS
  | ErrUnsupportedRepo
  | ErrInvalidAuthMethod
  | External string
  | CannotOpenSSHSession ssh_error
  | CannotPipeRemoteStdin ssh_error
  | CannotPipeRemoteStdout ssh_error
  | NilDereference

text \<open>
  A value of the interface \<open>transport.AuthMethod\<close> either implements the package's own
  interface \<open>AuthMethod\<close> (it has \<open>clientConfig\<close>) or it does not; the type assertion
  \<open>auth.(AuthMethod)\<close> of \<open>SetAuth\<close> tells the two apart (a nil interface value is of
  the second kind). The implementations are not part of the file, so both kinds are type
  parameters.
\<close>

datatype ('a, 'b) transport_AuthMethod = SSHAuthMethod 'a | ForeignAuthMethod 'b

text \<open>\<open>transport.Endpoint\<close> is a URL: only \<open>Host\<close> and \<open>User\<close> are read here; \<open>User\<close> may be nil.\<close>

record Endpoint =
  Host :: string
  User :: "string option"

text \<open>
  The struct \<open>session\<close>. Pointers, pipes and the channel are handles (numbers), \<open>None\<close>
  is nil.
\<close>

record 'a session =
  connected :: bool
  endpoint :: Endpoint
  client :: "nat option"
  session :: "nat option"
  stdin :: "nat option"
  stdout :: "nat option"
  sessionDone :: "nat option"
  auth :: "'a option"

text \<open>
  The collaborators of \<open>connect\<close>, which are not in the file: what each call returns. A
  call that returns an error returns a nil value with it.
\<close>

record 'a world =
  NewSSHAgentAuth :: "string \<Rightarrow> ssh_error + 'a"
  Dial :: "string \<Rightarrow> 'a \<Rightarrow> ssh_error + nat"
  NewSession :: "nat \<Rightarrow> ssh_error + nat"
  StdinPipe :: "nat \<Rightarrow> ssh_error + nat"
  StdoutPipe :: "nat \<Rightarrow> ssh_error + nat"

text \<open>What a call does to the network, in the order of the calls.\<close>

datatype 'a event =
    Dialed string 'a
  | SessionOpened nat
  | ClientClosed nat

subsection \<open>Operations\<close>

definition SetAuth :: "'a session \<Rightarrow> ('a, 'b) transport_AuthMethod \<Rightarrow> 'a session \<times> ssh_error option" where
  "SetAuth s a =
     (case a of
        ForeignAuthMethod _ \<Rightarrow> (s, Some ErrInvalidAuthMethod)
      | SSHAuthMethod a' \<Rightarrow> (s\<lparr>auth := Some a'\<rparr>, None))"

definition getHostWithPort :: "'a session \<Rightarrow> string" where
  "getHostWithPort s =
     (if CHR '':'' \<notin> set (Host (endpoint s)) then Host (endpoint s) @ '':22''
      else Host (endpoint s))"

definition setAuthFromEndpoint :: "'a world \<Rightarrow> 'a session \<Rightarrow> 'a session \<times> ssh_error option" where
  "setAuthFromEndpoint w s =
     (let u = (case User (endpoint s) of None \<Rightarrow> [] | Some info \<Rightarrow> info)
      in case NewSSHAgentAuth w u of
           Inl err \<Rightarrow> (s\<lparr>auth := None\<rparr>, Some err)
         | Inr a \<Rightarrow> (s\<lparr>auth := Some a\<rparr>, None))"

text \<open>\<open>openSSHSession\<close> is only called with a client that \<open>ssh.Dial\<close> has just returned.\<close>

definition openSSHSession ::
  "'a world \<Rightarrow> nat \<Rightarrow> 'a session \<Rightarrow> 'a session \<times> ssh_error option \<times> 'a event list" where
  "openSSHSession w c s =
     (case NewSession w c of
        Inl err \<Rightarrow> (s\<lparr>session := None\<rparr>, Some (CannotOpenSSHSession err), [])
      | Inr ss \<Rightarrow>
          (let s1 = s\<lparr>session := Some ss\<rparr> in
           case StdinPipe w ss of
             Inl err \<Rightarrow> (s1\<lparr>stdin := None\<rparr>, Some (CannotPipeRemoteStdin err), [SessionOpened ss])
           | Inr i \<Rightarrow>
               (let s2 = s1\<lparr>stdin := Some i\<rparr> in
                case StdoutPipe w ss of
                  Inl err \<Rightarrow>
                    (s2\<lparr>stdout := None\<rparr>, Some (CannotPipeRemoteStdout err), [SessionOpened ss])
                | Inr out \<Rightarrow> (s2\<lparr>stdout := Some out\<rparr>, None, [SessionOpened ss]))))"

text \<open>
  \<open>connect\<close>: the session after the call, the error returned (\<open>None\<close> is nil) and what was
  done to the network. \<open>s.auth.clientConfig()\<close> on a nil \<open>s.auth\<close> would panic; after
  \<open>setAuthFromEndpoint\<close> has returned no error, \<open>s.auth\<close> is not nil.
\<close>

definition connect ::
  "'a world \<Rightarrow> 'a session \<Rightarrow> 'a session \<times> ssh_error option \<times> 'a event list" where
  "connect w s =
     (if connected s then (s, Some ErrAlreadyConnected, [])
      else
        case setAuthFromEndpoint w s of
          (s1, Some err) \<Rightarrow> (s1, Some err, [])
        | (s1, None) \<Rightarrow>
            (case auth s1 of
               None \<Rightarrow> (s1, Some NilDereference, [])
             | Some a \<Rightarrow>
                 (case Dial w (getHostWithPort s1) a of
                    Inl err \<Rightarrow> (s1\<lparr>client := None\<rparr>, Some err, [Dialed (getHostWithPort s1) a])
                  | Inr c \<Rightarrow>
                      (case openSSHSession w c (s1\<lparr>client := Some c\<rparr>) of
                         (s2, Some err, tr) \<Rightarrow>
                           (s2, Some err, Dialed (getHostWithPort s1) a # tr @ [ClientClosed c])
                       | (s2, None, tr) \<Rightarrow>
                           (s2\<lparr>connected := True\<rparr>, None, Dialed (getHostWithPort s1) a # tr)))))"

definition Close :: "'a session \<Rightarrow> 'a session \<times> 'a event list" where
  "Close s =
     (if \<not> connected s then (s, [])
      else (s\<lparr>connected := False\<rparr>, (case client s of None \<Rightarrow> [] | Some c \<Rightarrow> [ClientClosed c])))"

section \<open>The object model: trees, entries and files (package git)\<close>

subsection \<open>Data\<close>

text \<open>
  Bytes are \<open>char\<close>s, byte strings and Go strings are \<open>string\<close>s. A \<open>core.Hash\<close> is an
  array of 20 bytes.

  Modelled from the spec: package \<open>core\<close> is not part of the files. An object has a kind
  (commit, tree, blob or tag), a declared size, its own hash, and a reader over its bytes;
  the store \<open>r.Storage\<close> maps a hash to an object, or to nothing.
\<close>

type_synonym Hash = string

datatype ObjectType = CommitObject | TreeObject | BlobObject | TagObject

record Object =
  obj_Type :: ObjectType
  obj_Size :: int
  obj_Hash :: Hash
  obj_Reader :: string

type_synonym Storage = "Hash \<Rightarrow> Object option"

record TreeEntry =
  te_Name :: string
  te_Mode :: "32 word"
  te_Hash :: Hash

text \<open>
  The map \<open>Entries\<close> is a list of pairs with one pair per key; a nil map and an empty map
  are both \<open>[]\<close>. The field \<open>r\<close> of a tree is the store, which every function below takes
  as an argument: a tree made by \<open>dir\<close> or \<open>walkEntries\<close> has the \<open>r\<close> of its parent.
\<close>

record Tree =
  Entries :: "(string \<times> TreeEntry) list"
  t_Hash :: Hash

record File =
  f_Name :: string
  f_Reader :: string
  f_Hash :: Hash
  f_Size :: int

text \<open>
  Modelled from the spec: \<open>Blob\<close>, \<open>Blob.Decode\<close> and \<open>Blob.Reader\<close> are not part of the
  files. A blob has the declared size of its object and reads the object's bytes.
\<close>

record Blob =
  b_Hash :: Hash
  b_Size :: int
  b_obj :: Object

definition Blob_Decode :: "Object \<Rightarrow> Blob" where
  "Blob_Decode obj = \<lparr>b_Hash = obj_Hash obj, b_Size = obj_Size obj, b_obj = obj\<rparr>"

definition Blob_Reader :: "Blob \<Rightarrow> string" where
  "Blob_Reader b = obj_Reader (b_obj b)"

text \<open>
  The errors of the package, the error of \<open>strconv.ParseInt\<close> (\<open>NumError\<close>), and \<open>Panic\<close>,
  which is no error value: a run-time panic, which no function here recovers, so it passes
  through every caller.
\<close>

datatype error = ErrFileNotFound | errDirNotFound | errEntryNotFound | NumError | Panic

subsection \<open>The library functions the package calls\<close>

text \<open>
  \<open>bufio.NewReader(o.Reader())\<close>: a reader with a buffer of \<open>defaultBufSize\<close> bytes over
  the reader of the object.

  Modelled from the spec: the reader of an object is not part of the files. It is a
  fresh stream over the bytes of the object in memory: a read gives as many bytes as are
  asked for while the stream has them, and \<open>io.EOF\<close> after the last one.

  The state of the \<open>bufio.Reader\<close> is the bytes in its buffer that are not yet read and
  the bytes \<open>rd\<close> that the reader under it still has. \<open>fill\<close> moves the unread bytes to the start
  of the buffer and reads once from the reader under it into the space that is left.
\<close>

definition defaultBufSize :: nat where
  "defaultBufSize = 4096"

type_synonym bufio_Reader = "string \<times> string"

definition NewReader :: "string \<Rightarrow> bufio_Reader" where
  "NewReader bytes = ([], bytes)"

definition fill :: "bufio_Reader \<Rightarrow> bufio_Reader" where
  "fill b =
     (case b of (buf, rd) \<Rightarrow>
        (buf @ take (defaultBufSize - length buf) rd,
         drop (defaultBufSize - length buf) rd))"

text \<open>
  \<open>ReadString(delim)\<close>: the bytes up to and with the first \<open>delim\<close>, the reader after the
  call, and whether the bytes ended before a \<open>delim\<close> (the error \<open>io.EOF\<close>, with the bytes
  read so far). It looks in the buffer first; a full buffer without \<open>delim\<close> is taken
  whole and the search goes on; a buffer that is not full is filled, and a fill that reads
  nothing is the end of the bytes.
\<close>

function ReadString :: "char \<Rightarrow> bufio_Reader \<Rightarrow> string \<times> bufio_Reader \<times> bool" where
  "ReadString delim (buf, rd) =
     (if delim \<in> set buf then
        (takeWhile (\<lambda>c. c \<noteq> delim) buf @ [delim],
         (tl (dropWhile (\<lambda>c. c \<noteq> delim) buf), rd), False)
      else if defaultBufSize \<le> length buf then
        (case ReadString delim ([], rd) of (line, b, eof) \<Rightarrow> (buf @ line, b, eof))
      else if rd = [] then (buf, ([], []), True)
      else ReadString delim (fill (buf, rd)))"
  by pat_completeness auto
termination
  by (relation "measure (\<lambda>(delim, buf, rd).
        2 * length rd + (if defaultBufSize \<le> length buf then 1 else 0))")
    (auto simp: fill_def defaultBufSize_def)

declare ReadString.simps [simp del]

text \<open>
  \<open>Read(p)\<close> for a zeroed array \<open>p\<close> of \<open>n\<close> bytes, \<open>n\<close> less than the size of the buffer:
  the array after the call and the reader after it. An empty buffer is filled first; then
  the call copies what the buffer has, at most \<open>n\<close> bytes, and does not read on: with
  fewer than \<open>n\<close> bytes in the buffer the tail of the array stays zero, whatever the
  reader under the buffer still has. \<open>Decode\<close> drops the count that \<open>Read\<close> returns and
  lets its \<open>io.EOF\<close> pass.
\<close>

definition Read :: "nat \<Rightarrow> bufio_Reader \<Rightarrow> string \<times> bufio_Reader" where
  "Read n b =
     (case (if fst b = [] then fill b else b) of
        (buf, rd) \<Rightarrow>
          (take n buf @ replicate (n - length buf) (CHR 0x00), (drop n buf, rd)))"

text \<open>
  \<open>strconv.ParseInt(s, 8, 32)\<close>: an optional sign, then one or more digits \<open>0\<close> to \<open>7\<close>,
  the value within 32 bits signed; every failure is a \<open>*NumError\<close>.
\<close>

fun ParseUint8 :: "int \<Rightarrow> string \<Rightarrow> int option" where
  "ParseUint8 n [] = Some n"
| "ParseUint8 n (c # cs) =
     (if CHR ''0'' = c \<or> CHR ''1'' = c \<or> CHR ''2'' = c \<or> CHR ''3'' = c \<or>
         CHR ''4'' = c \<or> CHR ''5'' = c \<or> CHR ''6'' = c \<or> CHR ''7'' = c
      then ParseUint8 (n * 8 + (of_char c - 48)) cs
      else None)"

definition ParseInt :: "string \<Rightarrow> error + int" where
  "ParseInt s =
     (case s of
        [] \<Rightarrow> Inl NumError
      | c # cs \<Rightarrow>
          (let neg = (c = CHR ''-'');
               digits = (if c = CHR ''+'' \<or> c = CHR ''-'' then cs else s)
           in if digits = [] then Inl NumError
              else case ParseUint8 0 digits of
                     None \<Rightarrow> Inl NumError
                   | Some un \<Rightarrow>
                       if \<not> neg \<and> un \<ge> 2 ^ 31 then Inl NumError
                       else if neg \<and> un > 2 ^ 31 then Inl NumError
                       else Inr (if neg then - un else un)))"

text \<open>\<open>strings.Split(s, sep)\<close> for a separator of one byte: never the empty list.\<close>

fun strings_Split :: "string \<Rightarrow> char \<Rightarrow> string list" where
  "strings_Split [] sep = [[]]"
| "strings_Split (c # cs) sep =
     (if c = sep then [] # strings_Split cs sep
      else (c # hd (strings_Split cs sep)) # tl (strings_Split cs sep))"







subsection \<open>Decode\<close>

text \<open>
  One round of the loop of \<open>Decode\<close>: the loop ends (\<open>Break\<close>), the function returns an
  error or panics (\<open>Return\<close>), or an entry is stored under its name and the loop goes on
  with the reader as it is then (\<open>Continue\<close>). \<open>name[:len(name)-1]\<close> of an empty \<open>name\<close>
  panics; \<open>mode\<close> ends with the space when \<open>ReadString\<close> returned no error.
\<close>

datatype round = Break | Return error | Continue string TreeEntry bufio_Reader

definition Decode_round :: "bufio_Reader \<Rightarrow> round" where
  "Decode_round r =
     (case ReadString (CHR '' '') r of
        (mode, r1, eof) \<Rightarrow>
          if eof then Break
          else (case ParseInt (butlast mode) of
                  Inl err \<Rightarrow> Return err
                | Inr fm \<Rightarrow>
                    (case ReadString (CHR 0x00) r1 of
                       (name, r2, _) \<Rightarrow>
                         (case Read 20 r2 of
                            (hash, r3) \<Rightarrow>
                              if name = [] then Return Panic
                              else Continue (butlast name)
                                     \<lparr>te_Name = butlast name, te_Mode = word_of_int fm,
                                      te_Hash = hash\<rparr> r3))))"

text \<open>The bytes that a reader has not yet given.\<close>

definition unread :: "bufio_Reader \<Rightarrow> nat" where
  "unread r = length (fst r) + length (snd r)"

function Decode_loop ::
  "(string \<times> TreeEntry) list \<Rightarrow> bufio_Reader \<Rightarrow> (string \<times> TreeEntry) list \<times> error option" where
  "Decode_loop es r =
     (case Decode_round r of
        Break \<Rightarrow> (es, None)
      | Return err \<Rightarrow> (es, Some err)
      | Continue baseName e r' \<Rightarrow> Decode_loop (AList.update baseName e es) r')"
  by pat_completeness auto
termination
proof (relation "measure (\<lambda>(es, r). unread r)")
  have unread_fill: "unread (fill b) = unread b" for b
    by (cases b) (auto simp: unread_def fill_def min_def)
  have ReadString_unread: "unread r' \<le> unread r \<and> (\<not> eof \<longrightarrow> unread r' < unread r)"
    if "ReadString delim r = (line, r', eof)" for delim r line r' eof
    using that
  proof (induction delim r arbitrary: line r' eof rule: ReadString.induct)
    case (1 delim buf rd)
    show ?case
    proof (cases "delim \<in> set buf")
      case True
      then have "length (dropWhile (\<lambda>c. c \<noteq> delim) buf) \<le> length buf"
        and "dropWhile (\<lambda>c. c \<noteq> delim) buf \<noteq> []"
        by (auto simp: length_dropWhile_le)
      with True "1.prems" show ?thesis
        by (cases "dropWhile (\<lambda>c. c \<noteq> delim) buf")
          (auto simp: ReadString.simps [of delim buf] unread_def)
    next
      case False
      show ?thesis
      proof (cases "defaultBufSize \<le> length buf")
        case True
        obtain l b e where rec: "ReadString delim ([], rd) = (l, b, e)"
          by (cases "ReadString delim ([], rd)") auto
        from "1.IH"(1) [OF False True rec] rec False True "1.prems" show ?thesis
          by (auto simp: ReadString.simps [of delim buf] unread_def)
      next
        case full: False
        show ?thesis
        proof (cases "rd = []")
          case True
          with False full "1.prems" show ?thesis
            by (auto simp: ReadString.simps [of delim buf] unread_def)
        next
          case ne: False
          from False full ne "1.prems"
          have "ReadString delim (fill (buf, rd)) = (line, r', eof)"
            by (simp add: ReadString.simps [of delim buf])
          from "1.IH"(2) [OF False full ne this] unread_fill [of "(buf, rd)"] show ?thesis
            by simp
        qed
      qed
    qed
  qed
  have Read_unread: "unread r' \<le> unread r" if a: "Read n r = (p, r')" for n r p r'
  proof -
    obtain buf rd where f: "(if fst r = [] then fill r else r) = (buf, rd)"
      by (cases "if fst r = [] then fill r else r") auto
    then have "unread (buf, rd) = unread r"
      using unread_fill [of r] by (auto split: if_splits)
    with a f show ?thesis
      by (auto simp: Read_def unread_def)
  qed
  show "wf (measure (\<lambda>(es, r). unread r))"
    by simp
  show "((AList.update baseName e es, r'), es, r) \<in> measure (\<lambda>(es, r). unread r)"
    if c: "Decode_round r = Continue baseName e r'" for es r baseName e r'
  proof -
    obtain mode r1 eof where m: "ReadString (CHR '' '') r = (mode, r1, eof)"
      by (cases "ReadString (CHR '' '') r") auto
    obtain name r2 eof2 where n: "ReadString (CHR 0x00) r1 = (name, r2, eof2)"
      by (cases "ReadString (CHR 0x00) r1") auto
    obtain hash r3 where h: "Read 20 r2 = (hash, r3)"
      by (cases "Read 20 r2") auto
    from c m n h have "\<not> eof" and "r' = r3"
      by (auto simp: Decode_round_def split: if_splits sum.splits)
    with ReadString_unread [OF m] ReadString_unread [OF n] Read_unread [OF h] show ?thesis
      by auto
  qed
qed

declare Decode_loop.simps [simp del]

text \<open>
  \<open>Decode\<close>: the tree after the call and the error returned. The entries of the receiver
  stay as they are when the declared size is zero. \<open>new_Tree\<close> is \<open>&Tree{r: t.r}\<close>.
\<close>

definition Decode :: "Tree \<Rightarrow> Object \<Rightarrow> Tree \<times> error option" where
  "Decode t obj =
     (let t1 = t\<lparr>t_Hash := obj_Hash obj\<rparr>
      in if obj_Size obj = 0 then (t1, None)
         else case Decode_loop [] (NewReader (obj_Reader obj)) of
                (es, err) \<Rightarrow> (t1\<lparr>Entries := es\<rparr>, err))"

definition new_Tree :: Tree where
  "new_Tree = \<lparr>Entries = [], t_Hash = replicate 20 (CHR 0x00)\<rparr>"

subsection \<open>File\<close>

definition entry :: "Tree \<Rightarrow> string \<Rightarrow> error + TreeEntry" where
  "entry t baseName =
     (case map_of (Entries t) baseName of
        None \<Rightarrow> Inl errEntryNotFound
      | Some e \<Rightarrow> Inr e)"

text \<open>\<open>dir\<close> drops the error of \<open>Decode\<close>; a panic of \<open>Decode\<close> is a panic of \<open>dir\<close>.\<close>

definition dir :: "Storage \<Rightarrow> Tree \<Rightarrow> string \<Rightarrow> error + Tree" where
  "dir r t baseName =
     (case entry t baseName of
        Inl err \<Rightarrow> Inl errDirNotFound
      | Inr e \<Rightarrow>
          (case r (te_Hash e) of
             None \<Rightarrow> Inl errDirNotFound
           | Some obj \<Rightarrow>
               if obj_Type obj \<noteq> TreeObject then Inl errDirNotFound
               else (case Decode new_Tree obj of
                       (tree, err) \<Rightarrow> if err = Some Panic then Inl Panic else Inr tree)))"

text \<open>
  The loop of \<open>findHash\<close> over the path parts left, then the lookup of the last part.
  \<open>pathParts[0]\<close> of no parts would panic; \<open>strings.Split\<close> returns at least one part.
\<close>

fun findHash_parts :: "Storage \<Rightarrow> Tree \<Rightarrow> string list \<Rightarrow> error + Hash" where
  "findHash_parts r tree [] = Inl Panic"
| "findHash_parts r tree [p] =
     (case entry tree p of Inl err \<Rightarrow> Inl err | Inr e \<Rightarrow> Inr (te_Hash e))"
| "findHash_parts r tree (p # q # ps) =
     (case dir r tree p of
        Inl err \<Rightarrow> Inl err
      | Inr tree' \<Rightarrow> findHash_parts r tree' (q # ps))"

definition findHash :: "Storage \<Rightarrow> Tree \<Rightarrow> string \<Rightarrow> error + Hash" where
  "findHash r t path = findHash_parts r t (strings_Split path (CHR ''/''))"

definition File :: "Storage \<Rightarrow> Tree \<Rightarrow> string \<Rightarrow> error + File" where
  "File r t path =
     (case findHash r t path of
        Inl err \<Rightarrow> Inl (if err = Panic then Panic else ErrFileNotFound)
      | Inr hash \<Rightarrow>
          (case r hash of
             None \<Rightarrow> Inl ErrFileNotFound
           | Some obj \<Rightarrow>
               if obj_Type obj \<noteq> BlobObject then Inl ErrFileNotFound
               else (let blob = Blob_Decode obj
                     in Inr \<lparr>f_Name = path, f_Reader = Blob_Reader blob, f_Hash = hash,
                             f_Size = b_Size blob\<rparr>)))"

text \<open>
  The trees that the loop of \<open>findHash\<close> goes through for the parts before the last one:
  \<open>dir\<close> after \<open>dir\<close>.
\<close>

fun dirs :: "Storage \<Rightarrow> Tree \<Rightarrow> string list \<Rightarrow> error + Tree" where
  "dirs r t [] = Inr t"
| "dirs r t (p # ps) = (case dir r t p of Inl err \<Rightarrow> Inl err | Inr t' \<Rightarrow> dirs r t' ps)"

subsection \<open>Files\<close>

text \<open>
  \<open>range t.Entries\<close> visits the entries of the map in an order that Go leaves open and
  that may differ from one loop to the next: \<open>order base\<close> is the order in which the loop
  of \<open>walkEntries\<close> called with \<open>base\<close> visits a map, a rearrangement of its pairs.
  \<open>Separator\<close> is the path separator of the system, which \<open>filepath.Join\<close> uses.

  \<open>walkEntries_range\<close> is the loop of \<open>walkEntries\<close> over the entries left to visit; the
  result is the list of the files sent to the channel, in the order sent. The functions
  call themselves through the store for as long as entries resolve to trees: \<open>fuel\<close>
  bounds the depth of the calls, and \<open>None\<close> is a walk cut off by it. A panic of \<open>Decode\<close>
  is a panic of the walk (\<open>Inl Panic\<close>).
\<close>

type_synonym order = "string \<Rightarrow> (string \<times> TreeEntry) list \<Rightarrow> (string \<times> TreeEntry) list"













text \<open>An order of visit rearranges the pairs of a map, whatever the map and the base.\<close>

definition rearranges :: "order \<Rightarrow> bool" where
  "rearranges order \<longleftrightarrow> (\<forall>base xs. mset (order base xs) = mset xs)"

subsection \<open>The format of a tree object, as the specification gives it\<close>

text \<open>
  A record is \<open>mode\<close>, a space, \<open>name\<close>, a zero byte and a hash of 20 bytes. It is well
  formed when the mode is an octal number that \<open>ParseInt\<close> accepts, the name has no zero
  byte and the hash has 20 bytes. \<open>entries_of\<close> is the mapping that a list of records
  stands for: a later record replaces an earlier one of the same name. The records of a
  tree object are the well-formed records that its bytes are made of, and none when its
  declared size is zero.
\<close>

type_synonym tree_record = "string \<times> string \<times> Hash"

definition encode_record :: "tree_record \<Rightarrow> string" where
  "encode_record rc =
     (case rc of (mode, name, hash) \<Rightarrow> mode @ CHR '' '' # name @ CHR 0x00 # hash)"

definition encode_records :: "tree_record list \<Rightarrow> string" where
  "encode_records rs = concat (map encode_record rs)"

definition well_formed_record :: "tree_record \<Rightarrow> bool" where
  "well_formed_record rc =
     (case rc of (mode, name, hash) \<Rightarrow>
        (case ParseInt mode of Inl _ \<Rightarrow> False | Inr _ \<Rightarrow> True) \<and>
        CHR 0x00 \<notin> set name \<and> length hash = 20)"

definition mode_of :: "string \<Rightarrow> 32 word" where
  "mode_of mode = (case ParseInt mode of Inl _ \<Rightarrow> 0 | Inr fm \<Rightarrow> word_of_int fm)"

definition entry_of :: "tree_record \<Rightarrow> TreeEntry" where
  "entry_of rc =
     (case rc of (mode, name, hash) \<Rightarrow>
        \<lparr>te_Name = name, te_Mode = mode_of mode, te_Hash = hash\<rparr>)"

definition store_record :: "(string \<times> TreeEntry) list \<Rightarrow> tree_record \<Rightarrow> (string \<times> TreeEntry) list" where
  "store_record es rc = AList.update (fst (snd rc)) (entry_of rc) es"

definition entries_of :: "tree_record list \<Rightarrow> (string \<times> TreeEntry) list" where
  "entries_of rs = foldl store_record [] rs"


subsection \<open>What a tree reaches through the store, as the specification gives it\<close>





subsection \<open>Objects to decode\<close>

definition hash_a :: Hash where
  "hash_a = replicate 20 (CHR ''a'')"

definition record_a :: tree_record where
  "record_a = (''100644'', ''hello.txt'', hash_a)"

definition tree_object :: "string \<Rightarrow> Object" where
  "tree_object bytes =
     \<lparr>obj_Type = TreeObject, obj_Size = int (length bytes),
      obj_Hash = replicate 20 (CHR ''t''), obj_Reader = bytes\<rparr>"

subsection \<open>A small repository\<close>

text \<open>
  The root tree has a file \<open>README\<close>, a directory \<open>src\<close> with the file \<open>main.go\<close>, and
  an entry \<open>vendor\<close> whose hash the store \<open>storage\<close> does not have (a submodule). In
  \<open>storage_with_commit\<close> the hash of \<open>vendor\<close> is the hash of a commit.
\<close>

definition hash_s :: Hash where
  "hash_s = replicate 20 (CHR ''s'')"

definition hash_m :: Hash where
  "hash_m = replicate 20 (CHR ''m'')"

definition hash_v :: Hash where
  "hash_v = replicate 20 (CHR ''v'')"

definition blob_object :: "Hash \<Rightarrow> string \<Rightarrow> Object" where
  "blob_object h bytes =
     \<lparr>obj_Type = BlobObject, obj_Size = int (length bytes), obj_Hash = h, obj_Reader = bytes\<rparr>"

definition src_object :: Object where
  "src_object = (tree_object (encode_record (''100644'', ''main.go'', hash_m)))\<lparr>obj_Hash := hash_s\<rparr>"

definition root_tree :: Tree where
  "root_tree =
     \<lparr>Entries =
        [(''README'', \<lparr>te_Name = ''README'', te_Mode = mode_of ''100644'', te_Hash = hash_a\<rparr>),
         (''src'', \<lparr>te_Name = ''src'', te_Mode = mode_of ''40000'', te_Hash = hash_s\<rparr>),
         (''vendor'', \<lparr>te_Name = ''vendor'', te_Mode = mode_of ''160000'', te_Hash = hash_v\<rparr>)],
      t_Hash = replicate 20 (CHR ''r'')\<rparr>"

definition storage :: Storage where
  "storage h =
     (if h = hash_a then Some (blob_object hash_a ''hello'')
      else if h = hash_s then Some src_object
      else if h = hash_m then Some (blob_object hash_m ''package main'')
      else None)"

definition storage_with_commit :: Storage where
  "storage_with_commit h =
     (if h = hash_v
      then Some \<lparr>obj_Type = CommitObject, obj_Size = 6, obj_Hash = hash_v, obj_Reader = ''commit''\<rparr>
      else storage h)"

text \<open>
  The tree that \<open>Decode\<close> makes of \<open>src_object\<close>; the files of the repository; two orders
  of visit; and a tree in which one entry has a name with a \<open>/\<close>, which git never writes
  and \<open>Decode\<close> accepts.
\<close>

definition src_tree :: Tree where
  "src_tree =
     \<lparr>Entries =
        [(''main.go'', \<lparr>te_Name = ''main.go'', te_Mode = mode_of ''100644'', te_Hash = hash_m\<rparr>)],
      t_Hash = hash_s\<rparr>"


definition file_main :: File where
  "file_main =
     \<lparr>f_Name = ''src/main.go'', f_Reader = ''package main'', f_Hash = hash_m, f_Size = 12\<rparr>"

definition file_vendor :: File where
  "file_vendor = \<lparr>f_Name = ''vendor'', f_Reader = ''commit'', f_Hash = hash_v, f_Size = 6\<rparr>"

definition file_slash :: File where
  "file_slash = \<lparr>f_Name = ''src/main.go'', f_Reader = ''hello'', f_Hash = hash_a, f_Size = 5\<rparr>"

definition in_order :: order where
  "in_order base xs = xs"


definition slash_tree :: Tree where
  "slash_tree =
     \<lparr>Entries =
        [(''src/main.go'', \<lparr>te_Name = ''src/main.go'', te_Mode = mode_of ''100644'', te_Hash = hash_a\<rparr>),
         (''src'', \<lparr>te_Name = ''src'', te_Mode = mode_of ''40000'', te_Hash = hash_s\<rparr>)],
      t_Hash = replicate 20 (CHR ''r'')\<rparr>"

subsection \<open>A directory longer than the buffer of the reader\<close>

text \<open>
  110 files \<open>file00000\<close> to \<open>file00109\<close>, whose hash the stores do not have, and after them
  a file \<open>target.go\<close>, each record 37 bytes long: in a tree object made of them, the first
  9 bytes of the hash of \<open>target.go\<close> are the end of the first 4096 bytes. \<open>long_stream\<close>
  has two more files in the place of \<open>target.go\<close>.
\<close>

definition hash_f :: Hash where
  "hash_f = ''ffffffffffffffffffff''"

definition hash_p :: Hash where
  "hash_p = ''ppppppppp0000000000 ''"


definition digits5 :: "nat \<Rightarrow> string" where
  "digits5 k =
     map (\<lambda>d. ''0123456789'' ! (d mod 10)) [k div 10000, k div 1000, k div 100, k div 10, k]"

definition filler :: "nat \<Rightarrow> tree_record" where
  "filler k = (''100644'', ''file'' @ digits5 k, hash_f)"

definition long_directory :: "Hash \<Rightarrow> tree_record list" where
  "long_directory h = map filler [0..<110] @ [(''100644'', ''target.go'', h)]"

definition long_stream :: "tree_record list" where
  "long_stream = map filler [0..<110] @ [filler 110, filler 111]"

definition directory_object :: "tree_record list \<Rightarrow> Object" where
  "directory_object rs = (tree_object (encode_records rs))\<lparr>obj_Hash := hash_s\<rparr>"

definition storage_long :: "Hash \<Rightarrow> Storage" where
  "storage_long h x =
     (if x = hash_s then Some (directory_object (long_directory h)) else storage x)"



subsection \<open>A world in which every call succeeds, one in which the pipe fails, and a session\<close>

definition agent_world :: "string world" where
  "agent_world =
     \<lparr>NewSSHAgentAuth = (\<lambda>u. Inr (''agent:'' @ u)),
      Dial = (\<lambda>h a. Inr 1),
      NewSession = (\<lambda>c. Inr 2),
      StdinPipe = (\<lambda>ss. Inr 3),
      StdoutPipe = (\<lambda>ss. Inr 4)\<rparr>"

definition broken_pipe_world :: "string world" where
  "broken_pipe_world = agent_world\<lparr>StdinPipe := (\<lambda>ss. Inl (External ''no pipe''))\<rparr>"

definition fresh_session :: "string session" where
  "fresh_session =
     \<lparr>connected = False,
      endpoint = \<lparr>Host = ''example.com'', User = Some ''git''\<rparr>,
      client = None, session = None, stdin = None, stdout = None, sessionDone = None,
      auth = None\<rparr>"

section \<open>Properties of the SSH session\<close>

text \<open>
  C8: \<open>connect\<close> on a connected session fails with \<open>ErrAlreadyConnected\<close>, changes nothing
  and touches no network resource; so a second \<open>connect\<close> after one that succeeded fails:
  \<open>connect\<close> is not idempotent.
\<close>

theorem connect_AlreadyConnected:
  "(connected s \<longrightarrow> connect w s = (s, Some ErrAlreadyConnected, [])) \<and>
   (connect w s0 = (s1, None, tr) \<longrightarrow> connect w' s1 = (s1, Some ErrAlreadyConnected, []))"
proof -
  have snd: "connected s1" if "connect w s0 = (s1, None, tr)"
    using that
    by (auto simp: connect_def split: if_splits prod.splits option.splits sum.splits)
  show ?thesis
    using snd by (simp add: connect_def)
qed

theorem connect_AlreadyConnected_witness:
  "connected (fresh_session\<lparr>connected := True\<rparr>) \<and>
   connect agent_world (fresh_session\<lparr>connected := True\<rparr>) =
     (fresh_session\<lparr>connected := True\<rparr>, Some ErrAlreadyConnected, []) \<and>
   (\<exists>s1 tr. connect agent_world fresh_session = (s1, None, tr) \<and>
      connect agent_world s1 = (s1, Some ErrAlreadyConnected, []))"
proof -
  obtain s1 tr where ok: "connect agent_world fresh_session = (s1, None, tr)"
    by (simp add: connect_def setAuthFromEndpoint_def openSSHSession_def agent_world_def
        fresh_session_def)
  have c: "connected (fresh_session\<lparr>connected := True\<rparr>)"
    by simp
  from connect_AlreadyConnected [where s = "fresh_session\<lparr>connected := True\<rparr>"
      and w = agent_world and s0 = fresh_session and ?s1.0 = s1 and tr = tr and w' = agent_world] ok c
  show ?thesis by blast
qed

text \<open>
  C10: \<open>SetAuth\<close> with a value that is no SSH \<open>AuthMethod\<close> returns
  \<open>ErrInvalidAuthMethod\<close> and leaves the session as it was; with an SSH \<open>AuthMethod\<close> it
  stores the value and returns nil; no other field changes in either case.
\<close>

theorem SetAuth_result:
  "SetAuth s (ForeignAuthMethod b) = (s, Some ErrInvalidAuthMethod) \<and>
   SetAuth s (SSHAuthMethod a) = (s\<lparr>auth := Some a\<rparr>, None)"
  by (simp add: SetAuth_def)

text \<open>
  C9: a \<open>connect\<close> on a session that is not connected and that returns an error leaves the
  session not connected. Either nothing was opened (the agent gave no auth method), or
  the dial failed (no connection to close), or the connection that \<open>ssh.Dial\<close> opened is
  closed as the last thing the call does.
\<close>

theorem connect_failure_closes:
  assumes "\<not> connected s" and "connect w s = (s', Some err, tr)"
  shows "\<not> connected s' \<and>
         (tr = [] \<or>
          (\<exists>h a. tr = [Dialed h a] \<and> Dial w h a = Inl err) \<or>
          (\<exists>h a c tr'. Dial w h a = Inr c \<and> tr = Dialed h a # tr' @ [ClientClosed c] \<and>
             ClientClosed c \<notin> set tr'))"
proof -
  have open_tr: "ClientClosed c \<notin> set tr' \<and> connected s2 = connected s1"
    if "openSSHSession w c s1 = (s2, e, tr')" for c s1 s2 e tr'
    using that
    by (auto simp: openSSHSession_def Let_def split: sum.splits)
  have auth_conn: "connected s1 = connected s" if "setAuthFromEndpoint w s = (s1, e)" for s1 e
    using that by (auto simp: setAuthFromEndpoint_def Let_def split: sum.splits)
  from assms show ?thesis
    unfolding connect_def
    by (auto split: prod.splits option.splits sum.splits dest!: open_tr auth_conn)
qed

theorem connect_failure_closes_witness:
  "\<not> connected fresh_session \<and>
   connect broken_pipe_world fresh_session =
     (fresh_session\<lparr>auth := Some ''agent:git'', client := Some 1, session := Some 2,
        stdin := None\<rparr>,
      Some (CannotPipeRemoteStdin (External ''no pipe'')),
      [Dialed ''example.com:22'' ''agent:git'', SessionOpened 2, ClientClosed 1]) \<and>
   \<not> connected (fresh_session\<lparr>auth := Some ''agent:git'', client := Some 1, session := Some 2,
        stdin := None\<rparr>) \<and>
   (\<exists>h a c tr'. Dial broken_pipe_world h a = Inr c \<and>
      [Dialed ''example.com:22'' ''agent:git'', SessionOpened 2, ClientClosed 1] =
        Dialed h a # tr' @ [ClientClosed c] \<and> ClientClosed c \<notin> set tr')"
proof -
  have nc: "\<not> connected fresh_session"
    by (simp add: fresh_session_def)
  have run: "connect broken_pipe_world fresh_session =
     (fresh_session\<lparr>auth := Some ''agent:git'', client := Some 1, session := Some 2,
        stdin := None\<rparr>,
      Some (CannotPipeRemoteStdin (External ''no pipe'')),
      [Dialed ''example.com:22'' ''agent:git'', SessionOpened 2, ClientClosed 1])"
    by (simp add: connect_def setAuthFromEndpoint_def openSSHSession_def getHostWithPort_def
        broken_pipe_world_def agent_world_def fresh_session_def)
  from connect_failure_closes [OF nc run] nc run show ?thesis
    by auto
qed

lemma connect_ignores_auth:
  "snd (connect w (s\<lparr>auth := x\<rparr>)) = snd (connect w s) \<and>
   (\<not> connected s \<longrightarrow> fst (connect w (s\<lparr>auth := x\<rparr>)) = fst (connect w s))"
  by (auto simp: connect_def setAuthFromEndpoint_def getHostWithPort_def Let_def
      split: sum.splits)

text \<open>
  C3: \<open>connect\<close> never reads the auth method that the session holds: it calls
  \<open>setAuthFromEndpoint\<close> first, on every path, so that the error and the network calls of
  \<open>connect\<close> are the same whatever \<open>SetAuth\<close> has stored before. A session given a
  password auth method with \<open>SetAuth\<close> dials with the agent's.
\<close>

theorem connect_overrides_SetAuth:
  "SetAuth fresh_session (SSHAuthMethod ''password:secret'' :: (string, unit) transport_AuthMethod) =
     (fresh_session\<lparr>auth := Some ''password:secret''\<rparr>, None) \<and>
   connect agent_world (fresh_session\<lparr>auth := Some ''password:secret''\<rparr>) =
     (fresh_session\<lparr>connected := True, auth := Some ''agent:git'', client := Some 1,
        session := Some 2, stdin := Some 3, stdout := Some 4\<rparr>,
      None,
      [Dialed ''example.com:22'' ''agent:git'', SessionOpened 2])"
  by (simp add: SetAuth_def connect_def setAuthFromEndpoint_def openSSHSession_def
      getHostWithPort_def agent_world_def fresh_session_def)

section \<open>Properties of the object model\<close>

subsection \<open>The reader\<close>

lemma takeWhile_to_delim:
  "delim \<notin> set a \<Longrightarrow> takeWhile (\<lambda>c. c \<noteq> delim) (a @ delim # rest) = a"
  by (induction a) auto

lemma dropWhile_to_delim:
  "delim \<notin> set a \<Longrightarrow> dropWhile (\<lambda>c. c \<noteq> delim) (a @ delim # rest) = delim # rest"
  by (induction a) auto

lemma ReadString_found:
  "delim \<notin> set a \<Longrightarrow>
     ReadString delim (a @ delim # rest, rd) = (a @ [delim], (rest, rd), False)"
  by (subst ReadString.simps) (simp add: takeWhile_to_delim dropWhile_to_delim)

lemma ReadString_nothing: "ReadString delim ([], []) = ([], ([], []), True)"
  by (subst ReadString.simps) (simp add: defaultBufSize_def)

lemma ReadString_end: "delim \<notin> set buf \<Longrightarrow> ReadString delim (buf, []) = (buf, ([], []), True)"
  by (subst ReadString.simps) (simp add: ReadString_nothing)

lemma ReadString_empty_buffer:
  "ReadString delim ([], rd) = ReadString delim (take defaultBufSize rd, drop defaultBufSize rd)"
proof (cases "rd = []")
  case True
  then show ?thesis by simp
next
  case False
  then show ?thesis
    by (subst ReadString.simps) (simp add: fill_def defaultBufSize_def)
qed

lemma Read_buffered:
  "buf \<noteq> [] \<Longrightarrow>
     Read n (buf, rd) = (take n buf @ replicate (n - length buf) (CHR 0x00), (drop n buf, rd))"
  by (simp add: Read_def)

lemma Read_nothing: "Read n ([], []) = (replicate n (CHR 0x00), ([], []))"
  by (simp add: Read_def fill_def)

lemma Read_end:
  "Read n (buf, []) = (take n buf @ replicate (n - length buf) (CHR 0x00), (drop n buf, []))"
  by (cases "buf = []") (simp_all add: Read_buffered Read_nothing)

subsection \<open>Decode\<close>

lemma ParseUint8_no_space: "ParseUint8 n s = Some v \<Longrightarrow> CHR '' '' \<notin> set s"
  by (induction s arbitrary: n) (auto split: if_splits)

lemma ParseInt_no_space: "ParseInt m = Inr fm \<Longrightarrow> CHR '' '' \<notin> set m"
  by (auto simp: ParseInt_def Let_def split: list.splits if_splits option.splits
      dest: ParseUint8_no_space)

lemma ParseInt_error: "ParseInt m = Inl err \<Longrightarrow> err = NumError"
  by (auto simp: ParseInt_def Let_def split: list.splits if_splits option.splits)

lemma Decode_round_end: "CHR '' '' \<notin> set p \<Longrightarrow> Decode_round (p, []) = Break"
  by (simp add: Decode_round_def ReadString_end)

lemma Decode_round_empty_buffer:
  "Decode_round ([], rd) = Decode_round (take defaultBufSize rd, drop defaultBufSize rd)"
  unfolding Decode_round_def by (subst ReadString_empty_buffer) (rule refl)

lemma Decode_round_record:
  assumes "ParseInt mode = Inr fm" and "CHR 0x00 \<notin> set name" and "length hash = 20"
  shows "Decode_round (mode @ CHR '' '' # name @ CHR 0x00 # hash @ rest, rd) =
           Continue name \<lparr>te_Name = name, te_Mode = word_of_int fm, te_Hash = hash\<rparr> (rest, rd)"
proof -
  have m: "ReadString (CHR '' '') (mode @ CHR '' '' # name @ CHR 0x00 # hash @ rest, rd) =
      (mode @ [CHR '' ''], (name @ CHR 0x00 # hash @ rest, rd), False)"
    using ParseInt_no_space [OF assms(1)] by (rule ReadString_found)
  have n: "ReadString (CHR 0x00) (name @ CHR 0x00 # hash @ rest, rd) =
      (name @ [CHR 0x00], (hash @ rest, rd), False)"
    using assms(2) by (rule ReadString_found)
  from assms(3) have "hash @ rest \<noteq> []"
    by auto
  from Read_buffered [OF this, of 20 rd] assms(3)
  have h: "Read 20 (hash @ rest, rd) = (hash, (rest, rd))"
    by simp
  show ?thesis
    by (simp add: Decode_round_def m n h assms(1))
qed

text \<open>
  A hash of which only a part is in the buffer is read short: the entry gets the part,
  filled up with zero bytes, and the rest of the hash stays with the reader.
\<close>

lemma Decode_round_short_read:
  assumes "ParseInt mode = Inr fm" and "CHR 0x00 \<notin> set name" and "h \<noteq> []" and "length h < 20"
  shows "Decode_round (mode @ CHR '' '' # name @ CHR 0x00 # h, rd) =
           Continue name
             \<lparr>te_Name = name, te_Mode = word_of_int fm,
              te_Hash = h @ replicate (20 - length h) (CHR 0x00)\<rparr> ([], rd)"
proof -
  have m: "ReadString (CHR '' '') (mode @ CHR '' '' # name @ CHR 0x00 # h, rd) =
      (mode @ [CHR '' ''], (name @ CHR 0x00 # h, rd), False)"
    using ParseInt_no_space [OF assms(1)] by (rule ReadString_found)
  have n: "ReadString (CHR 0x00) (name @ CHR 0x00 # h, rd) = (name @ [CHR 0x00], (h, rd), False)"
    using assms(2) by (rule ReadString_found)
  from Read_buffered [OF assms(3), of 20 rd] assms(4)
  have h: "Read 20 (h, rd) = (h @ replicate (20 - length h) (CHR 0x00), ([], rd))"
    by simp
  show ?thesis
    by (simp add: Decode_round_def m n h assms(1))
qed

lemma Decode_round_cut_name:
  assumes "ParseInt mode = Inr fm" and "CHR 0x00 \<notin> set n" and "n \<noteq> []"
  shows "Decode_round (mode @ CHR '' '' # n, []) =
           Continue (butlast n)
             \<lparr>te_Name = butlast n, te_Mode = word_of_int fm,
              te_Hash = replicate 20 (CHR 0x00)\<rparr> ([], [])"
proof -
  have m: "ReadString (CHR '' '') (mode @ CHR '' '' # n, []) = (mode @ [CHR '' ''], (n, []), False)"
    using ParseInt_no_space [OF assms(1)] by (rule ReadString_found)
  show ?thesis
    using assms by (simp add: Decode_round_def m ReadString_end Read_nothing)
qed

lemma Decode_round_after_mode:
  assumes "ParseInt mode = Inr fm"
  shows "Decode_round (mode @ [CHR '' ''], []) = Return Panic"
proof -
  have m: "ReadString (CHR '' '') (mode @ [CHR '' ''], []) = (mode @ [CHR '' ''], ([], []), False)"
    using ParseInt_no_space [OF assms(1)] ReadString_found [of "CHR '' ''" mode "[]" "[]"]
    by simp
  show ?thesis
    using assms by (simp add: Decode_round_def m ReadString_nothing Read_nothing)
qed

lemma Decode_round_bad_mode:
  assumes "ParseInt m = Inl err" and "CHR '' '' \<notin> set m"
  shows "Decode_round (m @ CHR '' '' # rest, rd) = Return NumError"
  using assms ParseInt_error [OF assms(1)]
  by (simp add: Decode_round_def ReadString_found)

lemma Decode_loop_Break: "Decode_round r = Break \<Longrightarrow> Decode_loop es r = (es, None)"
  by (subst Decode_loop.simps) simp

lemma Decode_loop_Return: "Decode_round r = Return err \<Longrightarrow> Decode_loop es r = (es, Some err)"
  by (subst Decode_loop.simps) simp

lemma Decode_loop_Continue:
  "Decode_round r = Continue k e r' \<Longrightarrow> Decode_loop es r = Decode_loop (AList.update k e es) r'"
  by (subst Decode_loop.simps) simp

lemma Decode_loop_empty_buffer:
  "Decode_loop es ([], rd) = Decode_loop es (take defaultBufSize rd, drop defaultBufSize rd)"
  by (simp add: Decode_loop.simps [of es "([], rd)"]
      Decode_loop.simps [of es "(take defaultBufSize rd, drop defaultBufSize rd)"]
      Decode_round_empty_buffer [of rd])

lemma Decode_loop_full_buffer:
  "length a = defaultBufSize \<Longrightarrow> Decode_loop es ([], a @ tail) = Decode_loop es (a, tail)"
  by (subst Decode_loop_empty_buffer) simp

lemma Decode_loop_small:
  "length bs \<le> defaultBufSize \<Longrightarrow> Decode_loop es ([], bs) = Decode_loop es (bs, [])"
  by (subst Decode_loop_empty_buffer) simp

lemma Decode_loop_records:
  "list_all well_formed_record rs \<Longrightarrow>
     Decode_loop es (encode_records rs @ rest, rd) =
       Decode_loop (foldl store_record es rs) (rest, rd)"
proof (induction rs arbitrary: es)
  case Nil
  then show ?case by (simp add: encode_records_def)
next
  case (Cons rc rs)
  obtain mode name hash where rc: "rc = (mode, name, hash)"
    by (cases rc) auto
  from Cons.prems rc obtain fm where fm: "ParseInt mode = Inr fm"
    and nm: "CHR 0x00 \<notin> set name" and h: "length hash = 20"
    by (auto simp: well_formed_record_def split: sum.splits)
  have "Decode_loop es (encode_records (rc # rs) @ rest, rd) =
        Decode_loop (store_record es rc) (encode_records rs @ rest, rd)"
    using Decode_loop_Continue [OF Decode_round_record [OF fm nm h, of "encode_records rs @ rest" rd]] fm
    by (simp add: rc encode_records_def encode_record_def store_record_def entry_of_def mode_of_def)
  with Cons show ?case by simp
qed

lemma Decode_new_Tree:
  "obj_Size obj \<noteq> 0 \<Longrightarrow> Decode_loop [] ([], obj_Reader obj) = (es, err) \<Longrightarrow>
     Decode new_Tree obj = (\<lparr>Entries = es, t_Hash = obj_Hash obj\<rparr>, err)"
  by (simp add: Decode_def new_Tree_def NewReader_def)

lemma Decode_records:
  assumes "list_all well_formed_record rs" and "obj_Size obj \<noteq> 0"
    and "obj_Reader obj = encode_records rs" and "length (obj_Reader obj) \<le> defaultBufSize"
  shows "Decode new_Tree obj = (\<lparr>Entries = entries_of rs, t_Hash = obj_Hash obj\<rparr>, None)"
proof -
  have "Decode_loop [] ([], encode_records rs) = (entries_of rs, None)"
    using Decode_loop_small [of "encode_records rs" "[]"] assms(3,4)
      Decode_loop_records [OF assms(1), of "[]" "[]" "[]"]
    by (simp add: entries_of_def Decode_loop_Break Decode_round_end)
  with assms(2,3) show ?thesis
    by (simp add: Decode_new_Tree)
qed

text \<open>
  The bytes of well-formed records and of one more record, of which the buffer takes all
  but a part of the hash: the hash is read short, and the loop goes on with the rest of
  the hash as if it were the start of the next record.
\<close>

lemma Decode_loop_short_read:
  assumes "list_all well_formed_record rs" and "ParseInt mode = Inr fm"
    and "CHR 0x00 \<notin> set name" and "h \<noteq> []" and "length h < 20"
    and "length (encode_records rs @ mode @ CHR '' '' # name @ CHR 0x00 # h) = defaultBufSize"
    and "length tail \<le> defaultBufSize"
  shows "Decode_loop [] ([], encode_records rs @ mode @ CHR '' '' # name @ CHR 0x00 # h @ tail) =
           Decode_loop
             (AList.update name
                \<lparr>te_Name = name, te_Mode = word_of_int fm,
                 te_Hash = h @ replicate (20 - length h) (CHR 0x00)\<rparr> (entries_of rs))
             (tail, [])"
proof -
  let ?head = "encode_records rs @ mode @ CHR '' '' # name @ CHR 0x00 # h"
  have split: "encode_records rs @ mode @ CHR '' '' # name @ CHR 0x00 # h @ tail = ?head @ tail"
    by simp
  have "Decode_loop [] ([], ?head @ tail) = Decode_loop [] (?head, tail)"
    using assms(6) by (rule Decode_loop_full_buffer)
  also have "\<dots> = Decode_loop (entries_of rs) (mode @ CHR '' '' # name @ CHR 0x00 # h, tail)"
    using Decode_loop_records [OF assms(1), of "[]" "mode @ CHR '' '' # name @ CHR 0x00 # h" tail]
    by (simp add: entries_of_def)
  also have "\<dots> = Decode_loop
             (AList.update name
                \<lparr>te_Name = name, te_Mode = word_of_int fm,
                 te_Hash = h @ replicate (20 - length h) (CHR 0x00)\<rparr> (entries_of rs))
             ([], tail)"
    by (rule Decode_loop_Continue [OF Decode_round_short_read [OF assms(2-5)]])
  also have "\<dots> = Decode_loop
             (AList.update name
                \<lparr>te_Name = name, te_Mode = word_of_int fm,
                 te_Hash = h @ replicate (20 - length h) (CHR 0x00)\<rparr> (entries_of rs))
             (tail, [])"
    using assms(7) by (rule Decode_loop_small)
  finally show ?thesis
    unfolding split .
qed

text \<open>
  In a tree object of at most 4096 bytes, the size of the buffer of the reader: bytes
  that are well-formed records, ending between two records, decode without error to
  these records; and so do bytes that go on with the start of a mode and end before its
  space.
\<close>

lemma Decode_records_then_cut:
  assumes "list_all well_formed_record rs" and "obj_Size obj \<noteq> 0"
    and "CHR '' '' \<notin> set p" and "length (encode_records rs @ p) \<le> defaultBufSize"
  shows
    "Decode new_Tree (obj\<lparr>obj_Reader := encode_records rs\<rparr>) =
       (\<lparr>Entries = entries_of rs, t_Hash = obj_Hash obj\<rparr>, None) \<and>
     Decode new_Tree (obj\<lparr>obj_Reader := encode_records rs @ p\<rparr>) =
       (\<lparr>Entries = entries_of rs, t_Hash = obj_Hash obj\<rparr>, None)"
proof -
  have "Decode_loop [] ([], encode_records rs @ p) = Decode_loop [] (encode_records rs @ p, [])"
    using assms(4) by (rule Decode_loop_small)
  also have "\<dots> = Decode_loop (entries_of rs) (p, [])"
    using Decode_loop_records [OF assms(1)] by (simp add: entries_of_def)
  also have "\<dots> = (entries_of rs, None)"
    using assms(3) by (simp add: Decode_loop_Break Decode_round_end)
  finally have cut: "Decode_loop [] ([], encode_records rs @ p) = (entries_of rs, None)" .
  have "length (encode_records rs) \<le> defaultBufSize"
    using assms(4) by simp
  then have clean: "Decode new_Tree (obj\<lparr>obj_Reader := encode_records rs\<rparr>) =
      (\<lparr>Entries = entries_of rs, t_Hash = obj_Hash obj\<rparr>, None)"
    using Decode_records [OF assms(1), of "obj\<lparr>obj_Reader := encode_records rs\<rparr>"] assms(2)
    by simp
  from cut assms(2) clean show ?thesis
    by (simp add: Decode_new_Tree)
qed

text \<open>The records of the long directories: well formed, and 37 bytes each.\<close>

lemma encode_records_append:
  "encode_records (rs @ rs') = encode_records rs @ encode_records rs'"
  by (simp add: encode_records_def)

lemma encode_records_single: "encode_records [rc] = encode_record rc"
  by (simp add: encode_records_def)

lemma encode_records_Cons: "encode_records (rc # rs) = encode_record rc @ encode_records rs"
  by (simp add: encode_records_def)

lemma digits5_chars: "set (digits5 k) \<subseteq> set ''0123456789''"
proof -
  define D where "D = set ''0123456789''"
  have "''0123456789'' ! (d mod 10) \<in> D" for d :: nat
    unfolding D_def by (rule nth_mem) simp
  then have "set (digits5 k) \<subseteq> D"
    by (simp add: digits5_def)
  then show ?thesis
    by (simp only: D_def)
qed

lemma filler_well_formed: "well_formed_record (filler k)"
  using digits5_chars [of k]
  by (auto simp: well_formed_record_def filler_def hash_f_def ParseInt_def)

lemma fillers_well_formed: "list_all well_formed_record (map filler ks)"
  by (simp add: list_all_iff filler_well_formed)

lemma length_filler: "length (encode_record (filler k)) = 37"
  by (simp add: encode_record_def filler_def hash_f_def digits5_def)

lemma length_fillers: "length (encode_records (map filler ks)) = 37 * length ks"
  by (induction ks) (simp_all add: encode_records_def length_filler)

lemma ParseInt_100644: "ParseInt ''100644'' = Inr 33188"
  by (simp add: ParseInt_def)

text \<open>
  112 well-formed records in 4144 bytes: the hash of the 111th is read short, the 11
  bytes left of it are read as the start of the mode of the 112th, and \<open>Decode\<close> returns
  the error of \<open>ParseInt\<close>.
\<close>

lemma Decode_long_stream:
  "snd (Decode new_Tree (tree_object (encode_records long_stream))) = Some NumError"
proof -
  let ?name = "''file'' @ digits5 110"
  let ?tail = "''fffffffffff'' @ encode_record (filler 111)"
  have bytes: "encode_records long_stream =
      encode_records (map filler [0..<110]) @
        ''100644'' @ CHR '' '' # ?name @ CHR 0x00 # ''fffffffff'' @ ?tail"
    by (simp add: long_stream_def encode_records_def encode_record_def filler_def hash_f_def)
  have name: "CHR 0x00 \<notin> set ?name"
    using digits5_chars [of 110] by auto
  have len: "length (encode_records (map filler [0..<110]) @
      ''100644'' @ CHR '' '' # ?name @ CHR 0x00 # ''fffffffff'') = defaultBufSize"
    by (simp add: length_fillers digits5_def defaultBufSize_def)
  have tail: "length ?tail \<le> defaultBufSize"
    by (simp add: length_filler defaultBufSize_def)
  have bad: "ParseInt (''fffffffffff'' @ ''100644'') = Inl NumError"
    by (simp add: ParseInt_def)
  have "Decode_round (?tail, []) = Return NumError"
    using Decode_round_bad_mode [OF bad, of "''file'' @ digits5 111 @ CHR 0x00 # hash_f" "[]"]
    by (simp add: encode_record_def filler_def)
  then have "snd (Decode_loop es (?tail, [])) = Some NumError" for es
    by (simp add: Decode_loop_Return)
  with Decode_loop_short_read [OF fillers_well_formed ParseInt_100644 name _ _ len tail]
  have "snd (Decode_loop [] ([], encode_records long_stream)) = Some NumError"
    unfolding bytes by simp
  then show ?thesis
    by (cases "Decode_loop [] ([], encode_records long_stream)")
      (simp add: Decode_def NewReader_def tree_object_def length_fillers long_stream_def
        encode_records_def length_filler)
qed

lemma long_stream_well_formed: "list_all well_formed_record long_stream"
  using fillers_well_formed [of "[0..<110] @ [110, 111]"]
  by (simp add: long_stream_def del: upt_Suc)

lemma Decode_tree_object:
  "bytes \<noteq> [] \<Longrightarrow> Decode_loop [] ([], bytes) = (es, err) \<Longrightarrow>
     snd (Decode new_Tree (tree_object bytes)) = err"
  by (simp add: Decode_def NewReader_def tree_object_def)

lemma Decode_loop_cut:
  assumes "list_all well_formed_record rs" and "length (encode_records rs @ p) \<le> defaultBufSize"
    and "Decode_round (p, []) = Continue k e ([], [])"
  shows "Decode_loop [] ([], encode_records rs @ p) = (AList.update k e (entries_of rs), None)"
proof -
  have "Decode_loop [] ([], encode_records rs @ p) = Decode_loop [] (encode_records rs @ p, [])"
    using assms(2) by (rule Decode_loop_small)
  also have "\<dots> = Decode_loop (entries_of rs) (p, [])"
    using Decode_loop_records [OF assms(1)] by (simp add: entries_of_def)
  also have "\<dots> = Decode_loop (AList.update k e (entries_of rs)) ([], [])"
    using assms(3) by (rule Decode_loop_Continue)
  also have "\<dots> = (AList.update k e (entries_of rs), None)"
    by (simp add: Decode_loop_Break Decode_round_end)
  finally show ?thesis .
qed

lemma record_a_well_formed: "list_all well_formed_record [record_a]"
  by (simp add: well_formed_record_def record_a_def hash_a_def ParseInt_def)

text \<open>
  C4, where the code departs from it: the bytes of one record and then \<open>1006\<close>, which end
  within the mode of a second record, the same bytes and then \<open>100644 hel\<close>, which end
  within its name, and the same bytes and then \<open>100644 hello.txt\<close>, a zero byte and
  \<open>aaaa\<close>, which end within its hash, all decode without an error, where the claim has a
  decode failure; and the 4144 bytes of the 112 well-formed records of \<open>long_stream\<close>,
  which end between two records, decode to the error of \<open>ParseInt\<close>, where the claim has
  a success.
\<close>

theorem Decode_accepts_cut_stream:
  "snd (Decode new_Tree (tree_object (encode_record record_a @ ''1006''))) = None \<and>
   snd (Decode new_Tree (tree_object (encode_record record_a @ ''100644 hel''))) = None \<and>
   snd (Decode new_Tree (tree_object
      (encode_record record_a @ ''100644 hello.txt'' @ CHR 0x00 # ''aaaa''))) = None \<and>
   list_all well_formed_record long_stream \<and>
   length (encode_records long_stream) = 4144 \<and>
   snd (Decode new_Tree (tree_object (encode_records long_stream))) = Some NumError"
proof -
  note sizes = encode_records_def encode_record_def record_a_def hash_a_def defaultBufSize_def
  have "Decode_loop [] ([], encode_records [record_a] @ ''1006'') =
      Decode_loop [] (encode_records [record_a] @ ''1006'', [])"
    by (rule Decode_loop_small) (simp add: sizes)
  also have "\<dots> = Decode_loop (entries_of [record_a]) (''1006'', [])"
    using Decode_loop_records [OF record_a_well_formed, of "[]" "''1006''" "[]"]
    by (simp add: entries_of_def)
  also have "\<dots> = (entries_of [record_a], None)"
    by (simp add: Decode_loop_Break Decode_round_end)
  finally have "snd (Decode new_Tree (tree_object (encode_records [record_a] @ ''1006''))) = None"
    by (rule Decode_tree_object [rotated]) simp
  then have mode: "snd (Decode new_Tree (tree_object (encode_record record_a @ ''1006''))) = None"
    by (simp add: encode_records_def)
  have "Decode_round (''100644'' @ CHR '' '' # ''hel'', []) =
      Continue (butlast ''hel'')
        \<lparr>te_Name = butlast ''hel'', te_Mode = word_of_int 33188,
         te_Hash = replicate 20 (CHR 0x00)\<rparr> ([], [])"
    by (rule Decode_round_cut_name [OF ParseInt_100644]) simp_all
  then have "Decode_round (''100644 hel'', []) =
      Continue ''he''
        \<lparr>te_Name = ''he'', te_Mode = word_of_int 33188, te_Hash = replicate 20 (CHR 0x00)\<rparr>
        ([], [])"
    by simp
  from Decode_loop_cut [OF record_a_well_formed _ this]
  have "snd (Decode_loop [] ([], encode_records [record_a] @ ''100644 hel'')) = None"
    by (simp add: sizes)
  then have "snd (Decode new_Tree (tree_object (encode_records [record_a] @ ''100644 hel''))) = None"
    by (cases "Decode_loop [] ([], encode_records [record_a] @ ''100644 hel'')")
      (simp add: Decode_def NewReader_def tree_object_def)
  then have name: "snd (Decode new_Tree (tree_object (encode_record record_a @ ''100644 hel''))) = None"
    by (simp add: encode_records_def)
  let ?cut = "''100644 hello.txt'' @ CHR 0x00 # ''aaaa''"
  have "Decode_round (''100644'' @ CHR '' '' # ''hello.txt'' @ CHR 0x00 # ''aaaa'', []) =
      Continue ''hello.txt''
        \<lparr>te_Name = ''hello.txt'', te_Mode = word_of_int 33188,
         te_Hash = ''aaaa'' @ replicate (20 - length ''aaaa'') (CHR 0x00)\<rparr> ([], [])"
    by (rule Decode_round_short_read [OF ParseInt_100644]) simp_all
  then have "Decode_round (?cut, []) =
      Continue ''hello.txt''
        \<lparr>te_Name = ''hello.txt'', te_Mode = word_of_int 33188,
         te_Hash = ''aaaa'' @ replicate (20 - length ''aaaa'') (CHR 0x00)\<rparr> ([], [])"
    by simp
  from Decode_loop_cut [OF record_a_well_formed _ this]
  have "snd (Decode_loop [] ([], encode_records [record_a] @ ?cut)) = None"
    by (simp add: sizes)
  then have "snd (Decode new_Tree (tree_object (encode_records [record_a] @ ?cut))) = None"
    by (cases "Decode_loop [] ([], encode_records [record_a] @ ?cut)")
      (simp add: Decode_def NewReader_def tree_object_def)
  then have hash: "snd (Decode new_Tree (tree_object (encode_record record_a @ ?cut))) = None"
    by (simp add: encode_records_def)
  have "length (encode_records long_stream) = 4144"
    using length_fillers [of "[0..<110]"] length_filler [of 110] length_filler [of 111]
    by (simp add: long_stream_def encode_records_def)
  with mode name hash long_stream_well_formed Decode_long_stream show ?thesis
    by simp
qed

text \<open>
  C6: \<open>Decode\<close> of an object of declared size zero returns no error and leaves the entries
  of the tree as they are: a new tree, which is what every caller decodes into, has no
  entries after it.
\<close>

theorem Decode_zero_size:
  "obj_Size obj = 0 \<Longrightarrow>
     Decode t obj = (t\<lparr>t_Hash := obj_Hash obj\<rparr>, None) \<and>
     Decode new_Tree obj = (\<lparr>Entries = [], t_Hash = obj_Hash obj\<rparr>, None)"
  by (simp add: Decode_def new_Tree_def)

theorem Decode_zero_size_witness:
  "obj_Size (tree_object []) = 0 \<and>
   Decode new_Tree (tree_object []) = (\<lparr>Entries = [], t_Hash = obj_Hash (tree_object [])\<rparr>, None)"
  using Decode_zero_size [of "tree_object []" new_Tree]
  by (simp add: tree_object_def new_Tree_def)

text \<open>
  In a tree object of at most 4096 bytes, bytes that end right after the space of a mode
  make \<open>Decode\<close> panic: the name read is empty, and \<open>name[:len(name)-1]\<close> is out of range.
\<close>

lemma Decode_panics_after_mode:
  assumes "list_all well_formed_record rs" and "obj_Size obj \<noteq> 0" and "ParseInt mode = Inr fm"
    and "length (encode_records rs @ mode @ [CHR '' '']) \<le> defaultBufSize"
  shows "snd (Decode new_Tree (obj\<lparr>obj_Reader := encode_records rs @ mode @ [CHR '' '']\<rparr>)) =
           Some Panic"
proof -
  have "Decode_loop [] ([], encode_records rs @ mode @ [CHR '' '']) =
      Decode_loop [] (encode_records rs @ mode @ [CHR '' ''], [])"
    using assms(4) by (rule Decode_loop_small)
  also have "\<dots> = (entries_of rs, Some Panic)"
    using Decode_loop_records [OF assms(1), of "[]" "mode @ [CHR '' '']" "[]"]
      Decode_round_after_mode [OF assms(3)]
    by (simp add: entries_of_def Decode_loop_Return)
  finally show ?thesis
    using assms(2) by (simp add: Decode_new_Tree)
qed

subsection \<open>The small repository\<close>

lemma hashes_differ:
  "hash_a \<noteq> hash_s" "hash_a \<noteq> hash_m" "hash_a \<noteq> hash_v" "hash_s \<noteq> hash_m" "hash_s \<noteq> hash_v"
  "hash_m \<noteq> hash_v" "hash_s \<noteq> hash_a" "hash_m \<noteq> hash_a" "hash_v \<noteq> hash_a" "hash_m \<noteq> hash_s"
  "hash_v \<noteq> hash_s" "hash_v \<noteq> hash_m"
  by (simp_all add: hash_a_def hash_s_def hash_v_def hash_m_def)

lemma src_object_Type: "obj_Type src_object = TreeObject"
  by (simp add: src_object_def tree_object_def)

lemma Decode_src_object: "Decode new_Tree src_object = (src_tree, None)"
proof -
  have wf: "list_all well_formed_record [(''100644'', ''main.go'', hash_m)]"
    by (simp add: well_formed_record_def hash_m_def ParseInt_def)
  have sz: "obj_Size src_object \<noteq> 0"
    by (simp add: src_object_def tree_object_def encode_record_def)
  have rd: "obj_Reader src_object = encode_records [(''100644'', ''main.go'', hash_m)]"
    by (simp add: src_object_def tree_object_def encode_records_def)
  have len: "length (obj_Reader src_object) \<le> defaultBufSize"
    by (simp add: src_object_def tree_object_def encode_record_def hash_m_def defaultBufSize_def)
  from Decode_records [OF wf sz rd len] show ?thesis
    by (simp add: src_object_def tree_object_def entries_of_def store_record_def entry_of_def
        src_tree_def)
qed

subsection \<open>File\<close>

lemma strings_Split_nonempty: "strings_Split s c \<noteq> []"
  by (induction s) auto

lemma findHash_parts_Cons:
  "ps \<noteq> [] \<Longrightarrow> findHash_parts r t (p # ps) =
     (case dir r t p of Inl err \<Rightarrow> Inl err | Inr t' \<Rightarrow> findHash_parts r t' ps)"
  by (cases ps) auto

lemma findHash_parts_append:
  "findHash_parts r t (pre @ seg # post) =
     (case dirs r t pre of Inl err \<Rightarrow> Inl err | Inr t' \<Rightarrow> findHash_parts r t' (seg # post))"
  by (induction pre arbitrary: t) (auto simp: findHash_parts_Cons split: sum.splits)

lemma dir_error: "dir r t p = Inl err \<Longrightarrow> err = errDirNotFound \<or> err = Panic"
  by (auto simp: dir_def split: sum.splits option.splits if_splits prod.splits)

lemma dir_Inr:
  "dir r t p = Inr t' \<longleftrightarrow>
     (\<exists>e obj err. map_of (Entries t) p = Some e \<and> r (te_Hash e) = Some obj \<and>
        obj_Type obj = TreeObject \<and> Decode new_Tree obj = (t', err) \<and> err \<noteq> Some Panic)"
  by (auto simp: dir_def entry_def split: sum.splits option.splits if_splits prod.splits)

text \<open>
  Let the parts of the path before some part \<open>seg\<close> lead, \<open>dir\<close> after \<open>dir\<close>, to
  a tree, no \<open>Decode\<close> on the way having panicked. Then \<open>File\<close> returns
  \<open>ErrFileNotFound\<close> when \<open>seg\<close> is not among the entries of
  that tree, when the hash of its entry is not in the store, when \<open>seg\<close> is not the last
  part and its object is no tree, and when \<open>seg\<close> is the last part and its object is no
  blob.
\<close>

lemma File_FileNotFound_below:
  assumes "strings_Split path (CHR ''/'') = pre @ seg # post"
    and "dirs r t pre = Inr t'"
    and "map_of (Entries t') seg = None \<or>
         (\<exists>e. map_of (Entries t') seg = Some e \<and>
            (r (te_Hash e) = None \<or>
             (\<exists>obj. r (te_Hash e) = Some obj \<and>
                (if post = [] then obj_Type obj \<noteq> BlobObject else obj_Type obj \<noteq> TreeObject))))"
  shows "File r t path = Inl ErrFileNotFound"
proof -
  have fh: "findHash r t path = findHash_parts r t' (seg # post)"
    using assms(1,2) by (simp add: findHash_def findHash_parts_append)
  show ?thesis
  proof (cases post)
    case Nil
    with assms(3) fh show ?thesis
      by (auto simp: File_def entry_def split: sum.splits option.splits)
  next
    case (Cons q qs)
    with assms(3) have "dir r t' seg = Inl errDirNotFound"
      by (auto simp: dir_def entry_def split: sum.splits option.splits)
    with fh Cons show ?thesis
      by (simp add: File_def)
  qed
qed

lemma findHash_parts_Inr:
  "findHash_parts r t ps = Inr h \<Longrightarrow>
     \<exists>pre seg t' e. ps = pre @ [seg] \<and> dirs r t pre = Inr t' \<and>
        map_of (Entries t') seg = Some e \<and> h = te_Hash e"
proof (induction r t ps rule: findHash_parts.induct)
  case (1 r tree)
  then show ?case by simp
next
  case (2 r tree p)
  then show ?case
    by (auto simp: entry_def split: option.splits)
next
  case (3 r tree p q ps)
  from "3.prems" obtain tree' where d: "dir r tree p = Inr tree'"
    and f: "findHash_parts r tree' (q # ps) = Inr h"
    by (auto split: sum.splits)
  from "3.IH" [OF d f] obtain pre seg t' e where
    "q # ps = pre @ [seg]" "dirs r tree' pre = Inr t'" "map_of (Entries t') seg = Some e" "h = te_Hash e"
    by blast
  with d show ?case
    by (intro exI [of _ "p # pre"] exI [of _ seg] exI [of _ t'] exI [of _ e]) simp
qed

text \<open>
  C7: a \<open>File\<close> that succeeds returns the path it was given as the name, the hash of
  the entry that the path leads to, and the size and the bytes of the blob that the store
  has for that hash.
\<close>

theorem File_found:
  assumes "File r t path = Inr f"
  shows "f_Name f = path \<and>
     (\<exists>pre seg t' e obj.
        strings_Split path (CHR ''/'') = pre @ [seg] \<and> dirs r t pre = Inr t' \<and>
        map_of (Entries t') seg = Some e \<and> r (te_Hash e) = Some obj \<and>
        obj_Type obj = BlobObject \<and>
        f_Hash f = te_Hash e \<and> f_Size f = obj_Size obj \<and> f_Reader f = obj_Reader obj)"
proof -
  from assms obtain h obj where fh: "findHash r t path = Inr h" and st: "r h = Some obj"
    and ty: "obj_Type obj = BlobObject"
    and f: "f = \<lparr>f_Name = path, f_Reader = obj_Reader obj, f_Hash = h, f_Size = obj_Size obj\<rparr>"
    by (auto simp: File_def Let_def Blob_Decode_def Blob_Reader_def
        split: sum.splits option.splits if_splits)
  from findHash_parts_Inr [OF fh [unfolded findHash_def]] st ty f show ?thesis
    by auto
qed

lemma File_error: "File r t path = Inl err \<Longrightarrow> err = ErrFileNotFound \<or> err = Panic"
  by (auto simp: File_def Let_def split: sum.splits option.splits if_splits)


theorem File_found_witness:
  "File storage root_tree ''src/main.go'' =
     Inr \<lparr>f_Name = ''src/main.go'', f_Reader = ''package main'', f_Hash = hash_m, f_Size = 12\<rparr> \<and>
   (\<exists>pre seg t' e obj.
      strings_Split ''src/main.go'' (CHR ''/'') = pre @ [seg] \<and>
      dirs storage root_tree pre = Inr t' \<and>
      map_of (Entries t') seg = Some e \<and> storage (te_Hash e) = Some obj \<and>
      obj_Type obj = BlobObject \<and> hash_m = te_Hash e \<and> 12 = obj_Size obj \<and>
      ''package main'' = obj_Reader obj)"
proof -
  have run: "File storage root_tree ''src/main.go'' =
     Inr \<lparr>f_Name = ''src/main.go'', f_Reader = ''package main'', f_Hash = hash_m, f_Size = 12\<rparr>"
    by (simp add: File_def findHash_def dir_def entry_def root_tree_def slash_tree_def
        storage_with_commit_def storage_def hashes_differ blob_object_def src_object_Type
        Decode_src_object src_tree_def Blob_Decode_def Blob_Reader_def file_main_def
        file_vendor_def file_slash_def)
  from File_found [OF run] run show ?thesis
    by simp
qed


subsection \<open>The long directory\<close>

lemma long_directory_well_formed: "length h = 20 \<Longrightarrow> list_all well_formed_record (long_directory h)"
  using fillers_well_formed [of "[0..<110]"]
  by (simp add: long_directory_def well_formed_record_def ParseInt_def)

lemma long_directory_names: "''missing'' \<notin> set (map (\<lambda>rc. fst (snd rc)) (long_directory h))"
  by (auto simp: long_directory_def filler_def)

text \<open>
  \<open>Decode\<close> on a long directory: the 110 records before \<open>target.go\<close> are stored; of the
  hash of \<open>target.go\<close>, \<open>Read\<close> copies the 9 bytes that the buffer has, and the loop goes
  on with the 11 bytes left.
\<close>

lemma Decode_loop_long_directory:
  assumes "length h9 = 9" and "length h11 = 11"
  shows "Decode_loop [] ([], encode_records (long_directory (h9 @ h11))) =
     Decode_loop
       (AList.update ''target.go''
          \<lparr>te_Name = ''target.go'', te_Mode = word_of_int 33188,
           te_Hash = h9 @ replicate 11 (CHR 0x00)\<rparr>
          (entries_of (map filler [0..<110])))
       (h11, [])"
proof -
  have bytes: "encode_records (long_directory (h9 @ h11)) =
      encode_records (map filler [0..<110]) @
        ''100644'' @ CHR '' '' # ''target.go'' @ CHR 0x00 # h9 @ h11"
    by (simp add: long_directory_def encode_records_def encode_record_def)
  have name: "CHR 0x00 \<notin> set ''target.go''"
    by simp
  have h: "h9 \<noteq> []" "length h9 < 20"
    using assms(1) by auto
  have len: "length (encode_records (map filler [0..<110]) @
      ''100644'' @ CHR '' '' # ''target.go'' @ CHR 0x00 # h9) = defaultBufSize"
    using assms(1) by (simp add: length_fillers defaultBufSize_def)
  have tail: "length h11 \<le> defaultBufSize"
    using assms(2) by (simp add: defaultBufSize_def)
  from Decode_loop_short_read [OF fillers_well_formed ParseInt_100644 name h len tail]
  show ?thesis
    unfolding bytes using assms(1) by simp
qed

lemma directory_object_simps:
  "obj_Type (directory_object rs) = TreeObject"
  "obj_Hash (directory_object rs) = hash_s"
  "obj_Reader (directory_object rs) = encode_records rs"
  "obj_Size (directory_object rs) = int (length (encode_records rs))"
  by (simp_all add: directory_object_def tree_object_def)

lemma long_directory_Size: "obj_Size (directory_object (long_directory h)) \<noteq> 0"
  by (simp add: directory_object_simps long_directory_def encode_records_def encode_record_def)

lemma length_long_directory: "length (encode_records (long_directory h)) = 4087 + length h"
  by (simp add: long_directory_def encode_records_append encode_records_single length_fillers
      encode_record_def)

text \<open>
  With the hash \<open>hash_p\<close>, the 11 bytes left are ten times \<open>0\<close> and a space: a mode,
  after which the bytes end. \<open>Decode\<close> panics, and \<open>dir\<close> and \<open>File\<close> with it.
\<close>

lemma Decode_long_directory_panics:
  "snd (Decode new_Tree (directory_object (long_directory hash_p))) = Some Panic"
proof -
  have p: "hash_p = ''ppppppppp'' @ ''0000000000 ''"
    by (simp add: hash_p_def)
  have "ParseInt ''0000000000'' = Inr 0"
    by (simp add: ParseInt_def)
  from Decode_round_after_mode [OF this]
  have "Decode_round (''0000000000 '', []) = Return Panic"
    by simp
  then have "snd (Decode_loop es (''0000000000 '', [])) = Some Panic" for es
    by (simp add: Decode_loop_Return)
  then have "snd (Decode_loop [] ([], encode_records (long_directory hash_p))) = Some Panic"
    unfolding p by (subst Decode_loop_long_directory) simp_all
  then show ?thesis
    using long_directory_Size [of hash_p]
    by (cases "Decode_loop [] ([], encode_records (long_directory hash_p))")
      (simp add: Decode_def NewReader_def directory_object_simps)
qed

text \<open>
  C1, where the code departs from it: \<open>src\<close> is a directory of 111 well-formed records in
  4107 bytes, none of them named \<open>missing\<close>, and \<open>File\<close> on \<open>src/missing\<close> panics in
  \<open>Decode\<close>, where the claim has it return \<open>ErrFileNotFound\<close>.
\<close>

theorem File_panics_long_directory:
  "list_all well_formed_record (long_directory hash_p) \<and>
   length (encode_records (long_directory hash_p)) = 4107 \<and>
   ''missing'' \<notin> set (map (\<lambda>rc. fst (snd rc)) (long_directory hash_p)) \<and>
   map_of (Entries root_tree) ''src'' =
     Some \<lparr>te_Name = ''src'', te_Mode = mode_of ''40000'', te_Hash = hash_s\<rparr> \<and>
   storage_long hash_p hash_s = Some (directory_object (long_directory hash_p)) \<and>
   obj_Type (directory_object (long_directory hash_p)) = TreeObject \<and>
   obj_Reader (directory_object (long_directory hash_p)) = encode_records (long_directory hash_p) \<and>
   File (storage_long hash_p) root_tree ''src/missing'' = Inl Panic"
proof -
  have len: "length hash_p = 20"
    by (simp add: hash_p_def)
  have "dir (storage_long hash_p) root_tree ''src'' = Inl Panic"
    using Decode_long_directory_panics
    by (auto simp: dir_def entry_def root_tree_def storage_long_def directory_object_simps
        split: prod.splits)
  then have "File (storage_long hash_p) root_tree ''src/missing'' = Inl Panic"
    by (simp add: File_def findHash_def)
  with long_directory_well_formed [OF len] long_directory_names [of hash_p]
    length_long_directory [of hash_p] len
  show ?thesis
    by (simp add: root_tree_def storage_long_def directory_object_simps)
qed


subsection \<open>Files\<close>



















subsection \<open>Trees that Decode builds\<close>







subsection \<open>Path names\<close>














subsection \<open>Files and File\<close>








subsection \<open>What Files emits\<close>











subsection \<open>The trees of the specification and the trees that Decode reads\<close>













subsection \<open>Files against File, and against the blob leaves\<close>



subsection \<open>The small repository, walked\<close>













lemma rearranges_in_order: "rearranges in_order"
  by (simp add: rearranges_def in_order_def)






subsection \<open>The long directory, walked\<close>













subsection \<open>Files on the repositories\<close>






end
